theory Spec2Isabelle
  imports Complex_Main
begin

section \<open>Data model of \<open>RepositoriesTable.tsx\<close>\<close>

text \<open>
  Modelled from the spec: the element type \<open>Repo\<close> is inferred by the source from
  \<open>data/data.json\<close>, which is generated at build time.  The fields are the
  thirteen keys that \<open>getComparator\<close> and \<open>filterRepos\<close> read; the counters
  are the integers of the JSON snapshot (section 3 of the specification: "integer"),
  the three names are strings.
\<close>

record Repo =
  closedIssuesCount :: int
  collaboratorsCount :: int
  discussionsCount :: int
  forksCount :: int
  issuesCount :: int
  mergedPullRequestsCount :: int
  openIssuesCount :: int
  openPullRequestsCount :: int
  projectsCount :: int
  watchersCount :: int
  licenseName :: string
  repoName :: string
  repositoryName :: string

text \<open>
  A JavaScript \<open>number\<close> as far as the component needs it: numbers are only compared,
  never computed with, and a comparison of two doubles is the comparison of their exact
  values, so a finite double is represented by its value.  \<open>Number(e.target.value)\<close> in
  the header inputs can produce a fraction or \<open>NaN\<close>, and the source writes
  \<open>Infinity\<close> itself.
\<close>

datatype number = Num rat | PosInfinity | NegInfinity | NaN

text \<open>The operator \<open><=\<close> on numbers: false as soon as one side is \<open>NaN\<close>.\<close>

fun number_le :: "number \<Rightarrow> number \<Rightarrow> bool" where
  "number_le NaN y = False"
| "number_le x NaN = False"
| "number_le NegInfinity y = True"
| "number_le x PosInfinity = True"
| "number_le (Num a) (Num b) = (a \<le> b)"
| "number_le x y = False"

text \<open>
  \<open>type Filter\<close> (lines 21 to 25).  Every field is optional; \<open>None\<close> is \<open>undefined\<close>.
  An element of the \<open>collaboratorsCount\<close> array may itself be \<open>undefined\<close>.
\<close>

record Filter =
  filter_repositoryName :: "string option"
  filter_licenseName :: "string list option"
  filter_collaboratorsCount :: "number option list option"

text \<open>
  The values that occur as conditions in \<open>filterRepos\<close>, with JavaScript's
  truthiness: \<open>undefined\<close>, \<open>false\<close>, \<open>0\<close>, \<open>NaN\<close> and the empty string are falsy.
\<close>

datatype js_value = Undefined | Boolean bool | Number number | String string

fun truthy :: "js_value \<Rightarrow> bool" where
  "truthy Undefined = False"
| "truthy (Boolean b) = b"
| "truthy (Number (Num q)) = (q \<noteq> 0)"
| "truthy (Number NaN) = False"
| "truthy (Number PosInfinity) = True"
| "truthy (Number NegInfinity) = True"
| "truthy (String s) = (s \<noteq> [])"

text \<open>\<open>a ?? b\<close> and \<open>a || b\<close>.\<close>

definition nullish_coalesce :: "js_value \<Rightarrow> js_value \<Rightarrow> js_value" where
  "nullish_coalesce a b = (if a = Undefined then b else a)"

definition logical_or :: "js_value \<Rightarrow> js_value \<Rightarrow> js_value" where
  "logical_or a b = (if truthy a then a else b)"

text \<open>
  \<open>String.prototype.includes\<close>: the search string occurs at some position of the
  receiver, compared code unit by code unit, without any folding.
\<close>

fun string_includes :: "string \<Rightarrow> string \<Rightarrow> bool" where
  "string_includes [] t = (t = [])"
| "string_includes (c # cs) t = (take (length t) (c # cs) = t \<or> string_includes cs t)"

text \<open>\<open>xs?.length\<close> and \<open>xs?.includes(x)\<close> on an optional array of strings.\<close>

definition optional_length :: "string list option \<Rightarrow> js_value" where
  "optional_length xs =
     (case xs of None \<Rightarrow> Undefined | Some ys \<Rightarrow> Number (Num (of_nat (length ys))))"

definition optional_includes :: "string list option \<Rightarrow> string \<Rightarrow> js_value" where
  "optional_includes xs x =
     (case xs of None \<Rightarrow> Undefined | Some ys \<Rightarrow> Boolean (x \<in> set ys))"

text \<open>
  \<open>arr?.[i]\<close> on the array of bounds: an index past the end reads \<open>undefined\<close>, as
  an \<open>undefined\<close> element does.
\<close>

definition element_at :: "number option list \<Rightarrow> nat \<Rightarrow> number option" where
  "element_at arr i = (if i < length arr then arr ! i else None)"

definition or_default :: "number option \<Rightarrow> number \<Rightarrow> number" where
  "or_default v d = (case v of None \<Rightarrow> d | Some n \<Rightarrow> n)"

section \<open>\<open>filterRepos\<close> (lines 271 to 290)\<close>

text \<open>Line 275: the name dimension.\<close>

definition name_dimension :: "Filter \<Rightarrow> Repo \<Rightarrow> bool" where
  "name_dimension globalFilters repo =
     (case filter_repositoryName globalFilters of
        None \<Rightarrow> True
      | Some s \<Rightarrow> if truthy (String s) then string_includes (repositoryName repo) s else True)"

text \<open>
  Lines 276 to 279: the license dimension.  \<open>??\<close> binds looser than \<open>>\<close>, so the
  condition of the conditional expression is \<open>licenseName?.length ?? (0 > 0)\<close>.
\<close>

definition license_condition :: "Filter \<Rightarrow> js_value" where
  "license_condition globalFilters =
     nullish_coalesce (optional_length (filter_licenseName globalFilters))
       (Boolean ((0::int) > 0))"

definition license_dimension :: "Filter \<Rightarrow> Repo \<Rightarrow> bool" where
  "license_dimension globalFilters repo =
     truthy (logical_or
       (if truthy (license_condition globalFilters)
        then optional_includes (filter_licenseName globalFilters) (licenseName repo)
        else Boolean True)
       (optional_includes (filter_licenseName globalFilters) ''all''))"

text \<open>Lines 280 to 283: the collaborator-count dimension.\<close>

definition collaborators_dimension :: "Filter \<Rightarrow> Repo \<Rightarrow> bool" where
  "collaborators_dimension globalFilters repo =
     (case filter_collaboratorsCount globalFilters of
        None \<Rightarrow> True
      | Some arr \<Rightarrow>
          number_le (or_default (element_at arr 0) (Num 0))
                    (Num (of_int (collaboratorsCount repo))) \<and>
          number_le (Num (of_int (collaboratorsCount repo)))
                    (or_default (element_at arr 1) PosInfinity))"

definition keeps :: "Filter \<Rightarrow> Repo \<Rightarrow> bool" where
  "keeps globalFilters repo =
     (name_dimension globalFilters repo \<and>
      license_dimension globalFilters repo \<and>
      collaborators_dimension globalFilters repo)"

definition filterRepos :: "Filter \<Rightarrow> Repo list \<Rightarrow> Repo list" where
  "filterRepos globalFilters inputRepos = filter (keeps globalFilters) inputRepos"

text \<open>A record with the given names and collaborator count, every other counter zero.\<close>

definition repo_of :: "string \<Rightarrow> string \<Rightarrow> int \<Rightarrow> Repo" where
  "repo_of name license n =
     \<lparr>closedIssuesCount = 0, collaboratorsCount = n, discussionsCount = 0, forksCount = 0,
      issuesCount = 0, mergedPullRequestsCount = 0, openIssuesCount = 0,
      openPullRequestsCount = 0, projectsCount = 0, watchersCount = 0,
      licenseName = license, repoName = name, repositoryName = name\<rparr>"

text \<open>The filter state at mount (lines 99 to 102).\<close>

definition initial_filters :: Filter where
  "initial_filters =
     \<lparr>filter_repositoryName = None, filter_licenseName = Some [],
      filter_collaboratorsCount = None\<rparr>"

section \<open>\<open>getComparator\<close> (lines 61 to 96)\<close>

text \<open>\<open>throw new Error(`unsupported sortColumn: "${sortColumn}"`)\<close>, with the key it names.\<close>

datatype error = UnsupportedSortColumn string

text \<open>
  \<open>a[sortColumn]\<close> for the ten keys of the first group of \<open>case\<close> labels and for the
  three keys of the second group.
\<close>

definition number_field :: "string \<Rightarrow> (Repo \<Rightarrow> int) option" where
  "number_field sortColumn =
     map_of
       [(''closedIssuesCount'', closedIssuesCount),
        (''collaboratorsCount'', collaboratorsCount),
        (''discussionsCount'', discussionsCount),
        (''forksCount'', forksCount),
        (''issuesCount'', issuesCount),
        (''mergedPullRequestsCount'', mergedPullRequestsCount),
        (''openIssuesCount'', openIssuesCount),
        (''openPullRequestsCount'', openPullRequestsCount),
        (''projectsCount'', projectsCount),
        (''watchersCount'', watchersCount)] sortColumn"

definition string_field :: "string \<Rightarrow> (Repo \<Rightarrow> string) option" where
  "string_field sortColumn =
     map_of
       [(''licenseName'', licenseName),
        (''repoName'', repoName),
        (''repositoryName'', repositoryName)] sortColumn"

text \<open>
  Strings are sequences of the code units below 256, which is what the type \<open>char\<close>
  holds; repository and license names live there.  On these code units
  \<open>String.prototype.toLowerCase\<close> works unit by unit: the letters \<open>A\<close> to \<open>Z\<close> and
  the letters from U+00C0 to U+00DE, without the multiplication sign U+00D7, move up by
  32, and every other code unit stays.
\<close>

definition is_upper :: "char \<Rightarrow> bool" where
  "is_upper c =
     ((65 \<le> (of_char c :: nat) \<and> (of_char c :: nat) \<le> 90) \<or>
      (192 \<le> (of_char c :: nat) \<and> (of_char c :: nat) \<le> 222 \<and> (of_char c :: nat) \<noteq> 215))"

definition lower_char :: "char \<Rightarrow> char" where
  "lower_char c = (if is_upper c then char_of ((of_char c :: nat) + 32) else c)"

definition toLowerCase :: "string \<Rightarrow> string" where
  "toLowerCase s = map lower_char s"

text \<open>
  \<open>String.prototype.localeCompare\<close> depends on the collation of the host, so the
  component is modelled for any such function \<open>lc\<close>: a negative, zero or positive
  integer.  The numeric comparator returns \<open>0\<close>, \<open>1\<close> or \<open>-1\<close>.
\<close>

type_synonym Comparator = "Repo \<Rightarrow> Repo \<Rightarrow> int"

definition getComparator :: "(string \<Rightarrow> string \<Rightarrow> int) \<Rightarrow> string \<Rightarrow> error + Comparator" where
  "getComparator lc sortColumn =
     (case number_field sortColumn of
        Some f \<Rightarrow> Inr (\<lambda>a b. if f a = f b then 0 else if f a > f b then 1 else - 1)
      | None \<Rightarrow>
         (case string_field sortColumn of
            Some g \<Rightarrow> Inr (\<lambda>a b. lc (toLowerCase (g a)) (toLowerCase (g b)))
          | None \<Rightarrow> Inl (UnsupportedSortColumn sortColumn)))"

section \<open>\<open>sortRepos\<close> (lines 246 to 263) and the rendered rows (line 307)\<close>

datatype SortDirection = ASC | DESC

record SortColumn =
  columnKey :: string
  direction :: SortDirection

text \<open>
  The callback handed to \<open>sort\<close> (lines 251 to 260): the loop over \<open>sortColumns\<close>
  asks for the comparator of a column only when every column before it tied, and an
  exception of \<open>getComparator\<close> leaves the callback.
\<close>

fun compareRows :: "(string \<Rightarrow> string \<Rightarrow> int) \<Rightarrow> SortColumn list \<Rightarrow> Repo \<Rightarrow> Repo \<Rightarrow> error + int" where
  "compareRows lc [] a b = Inr 0"
| "compareRows lc (sortCol # rest) a b =
     (case getComparator lc (columnKey sortCol) of
        Inl e \<Rightarrow> Inl e
      | Inr comparator \<Rightarrow>
          (let compResult = comparator a b
           in if compResult \<noteq> 0
              then Inr (if direction sortCol = ASC then compResult else - compResult)
              else compareRows lc rest a b))"

text \<open>
  \<open>Array.prototype.sort\<close> with a callback that may throw.  ECMAScript asks for a stable
  sort and leaves the algorithm open; the model is the stable insertion sort, which
  places an element in front of the first element of the sorted rest that it does not
  follow.  An exception of the callback ends the sort.
\<close>

fun insert_sorted :: "('a \<Rightarrow> 'a \<Rightarrow> error + int) \<Rightarrow> 'a \<Rightarrow> 'a list \<Rightarrow> error + 'a list" where
  "insert_sorted comparefn x [] = Inr [x]"
| "insert_sorted comparefn x (y # ys) =
     (case comparefn x y of
        Inl e \<Rightarrow> Inl e
      | Inr v \<Rightarrow>
          if v \<le> 0 then Inr (x # y # ys)
          else (case insert_sorted comparefn x ys of
                  Inl e \<Rightarrow> Inl e
                | Inr zs \<Rightarrow> Inr (y # zs)))"

fun array_sort :: "('a \<Rightarrow> 'a \<Rightarrow> error + int) \<Rightarrow> 'a list \<Rightarrow> error + 'a list" where
  "array_sort comparefn [] = Inr []"
| "array_sort comparefn (x # xs) =
     (case array_sort comparefn xs of
        Inl e \<Rightarrow> Inl e
      | Inr ys \<Rightarrow> insert_sorted comparefn x ys)"

text \<open>
  \<open>sortRepos\<close> closes over the module constant \<open>repos\<close> and the state
  \<open>sortColumns\<close>; both are arguments here.  The sort works on the copy
  \<open>[...inputRepos]\<close>, so the argument itself is never written to.
\<close>

definition sortRepos ::
  "(string \<Rightarrow> string \<Rightarrow> int) \<Rightarrow> Repo list \<Rightarrow> SortColumn list \<Rightarrow> Repo list \<Rightarrow> error + Repo list" where
  "sortRepos lc repos sortColumns inputRepos =
     (if length sortColumns = 0 then Inr repos
      else array_sort (compareRows lc sortColumns) inputRepos)"

text \<open>Line 307: \<open>rows={filterRepos(sortRepos(repos))}\<close>.\<close>

definition rendered_rows ::
  "(string \<Rightarrow> string \<Rightarrow> int) \<Rightarrow> Repo list \<Rightarrow> Filter \<Rightarrow> SortColumn list \<Rightarrow> error + Repo list" where
  "rendered_rows lc repos globalFilters sortColumns =
     (case sortRepos lc repos sortColumns repos of
        Inl e \<Rightarrow> Inl e
      | Inr sorted_rows \<Rightarrow> Inr (filterRepos globalFilters sorted_rows))"






text \<open>
  A collation for closed examples: code units compared from the left, a proper
  prefix first.
\<close>

fun code_unit_compare :: "string \<Rightarrow> string \<Rightarrow> int" where
  "code_unit_compare [] [] = 0"
| "code_unit_compare [] (d # t) = - 1"
| "code_unit_compare (c # s) [] = 1"
| "code_unit_compare (c # s) (d # t) =
     (if (of_char c :: nat) < of_char d then - 1
      else if (of_char d :: nat) < of_char c then 1
      else code_unit_compare s t)"

section \<open>The statements of the specification\<close>

text \<open>
  The enumerated set of sortable keys: the ten numeric count keys and the three
  string keys.
\<close>

definition number_keys :: "string set" where
  "number_keys =
     {''closedIssuesCount'', ''collaboratorsCount'', ''discussionsCount'', ''forksCount'',
      ''issuesCount'', ''mergedPullRequestsCount'', ''openIssuesCount'',
      ''openPullRequestsCount'', ''projectsCount'', ''watchersCount''}"

definition string_keys :: "string set" where
  "string_keys = {''licenseName'', ''repoName'', ''repositoryName''}"

definition sortable_keys :: "string set" where
  "sortable_keys = number_keys \<union> string_keys"

text \<open>
  The license rule in the words of section 4.1: kept if either the license list has
  length zero and contains \<open>"all"\<close>, or it contains the record's license.
\<close>

definition stated_license_rule :: "string list \<Rightarrow> Repo \<Rightarrow> bool" where
  "stated_license_rule licenses repo =
     ((length licenses = 0 \<and> ''all'' \<in> set licenses) \<or> licenseName repo \<in> set licenses)"

text \<open>
  Two strings differ only in case: same length, and position by position the same code
  unit or the two cases of one letter.  Among the code units below 256 the letters with
  two cases are \<open>A\<close> to \<open>Z\<close> with \<open>a\<close> to \<open>z\<close> and U+00C0 to U+00DE with U+00E0 to
  U+00FE, but for the multiplication and division signs U+00D7 and U+00F7.
\<close>

definition upper_lower_pair :: "char \<Rightarrow> char \<Rightarrow> bool" where
  "upper_lower_pair u l =
     ((of_char l :: nat) = of_char u + 32 \<and>
      (of_char u :: nat) \<in> {65..90} \<union> {192..214} \<union> {216..222})"

definition case_variant :: "char \<Rightarrow> char \<Rightarrow> bool" where
  "case_variant c d =
     (c = d \<or> upper_lower_pair c d \<or> upper_lower_pair d c)"

definition differ_only_in_case :: "string \<Rightarrow> string \<Rightarrow> bool" where
  "differ_only_in_case s t = list_all2 case_variant s t"

text \<open>
  What ECMAScript calls a consistent comparator, on the sign of the result: swapping the
  arguments swaps the sign, and "not after" is transitive.
\<close>

definition consistent_comparator :: "('a \<Rightarrow> 'a \<Rightarrow> int) \<Rightarrow> bool" where
  "consistent_comparator f =
     ((\<forall>a b. f a b < 0 \<longleftrightarrow> 0 < f b a) \<and>
      (\<forall>a b c. f a b \<le> 0 \<longrightarrow> f b c \<le> 0 \<longrightarrow> f a c \<le> 0))"

text \<open>
  The sort contract of section 4.1.  A numeric key compares the two counters directly,
  a string key compares the lower-cased names with the collation.  In a multi-column
  sort the first nonzero result wins, negated for \<open>DESC\<close>.
\<close>

definition spec_column_compare :: "(string \<Rightarrow> string \<Rightarrow> int) \<Rightarrow> string \<Rightarrow> Repo \<Rightarrow> Repo \<Rightarrow> int" where
  "spec_column_compare lc k a b =
     (case number_field k of
        Some f \<Rightarrow> sgn (f a - f b)
      | None \<Rightarrow>
         (case string_field k of
            Some g \<Rightarrow> lc (toLowerCase (g a)) (toLowerCase (g b))
          | None \<Rightarrow> 0))"

definition directed :: "SortDirection \<Rightarrow> int \<Rightarrow> int" where
  "directed d r = (case d of ASC \<Rightarrow> r | DESC \<Rightarrow> - r)"

fun spec_compare :: "(string \<Rightarrow> string \<Rightarrow> int) \<Rightarrow> SortColumn list \<Rightarrow> Repo \<Rightarrow> Repo \<Rightarrow> int" where
  "spec_compare lc [] a b = 0"
| "spec_compare lc (s # rest) a b =
     (if directed (direction s) (spec_column_compare lc (columnKey s) a b) \<noteq> 0
      then directed (direction s) (spec_column_compare lc (columnKey s) a b)
      else spec_compare lc rest a b)"

text \<open>A stable sort by a comparator that cannot fail.\<close>

fun stable_insert :: "('a \<Rightarrow> 'a \<Rightarrow> int) \<Rightarrow> 'a \<Rightarrow> 'a list \<Rightarrow> 'a list" where
  "stable_insert f x [] = [x]"
| "stable_insert f x (y # ys) = (if f x y \<le> 0 then x # y # ys else y # stable_insert f x ys)"

fun stable_sort :: "('a \<Rightarrow> 'a \<Rightarrow> int) \<Rightarrow> 'a list \<Rightarrow> 'a list" where
  "stable_sort f [] = []"
| "stable_sort f (x # xs) = stable_insert f x (stable_sort f xs)"

text \<open>
  Sorting as the specification words it: an empty SortState is a no-op, a key outside
  the enumerated set fails with \<open>UnsupportedSortColumn\<close>, otherwise the rows are
  sorted stably by the comparator chain.  The table engine of section 2 filters first
  and sorts the filtered rows.
\<close>

definition spec_sort ::
  "(string \<Rightarrow> string \<Rightarrow> int) \<Rightarrow> SortColumn list \<Rightarrow> Repo list \<Rightarrow> error + Repo list" where
  "spec_sort lc sortState rows =
     (if sortState = [] then Inr rows
      else (case List.find (\<lambda>s. columnKey s \<notin> sortable_keys) sortState of
              Some s \<Rightarrow> Inl (UnsupportedSortColumn (columnKey s))
            | None \<Rightarrow> Inr (stable_sort (spec_compare lc sortState) rows)))"

definition spec_rows ::
  "(string \<Rightarrow> string \<Rightarrow> int) \<Rightarrow> Repo list \<Rightarrow> Filter \<Rightarrow> SortColumn list \<Rightarrow> error + Repo list" where
  "spec_rows lc repos filterState sortState =
     spec_sort lc sortState (filterRepos filterState repos)"

section \<open>The filter\<close>

subsection \<open>Substring search\<close>

lemma string_includes_iff: "string_includes s t \<longleftrightarrow> (\<exists>ps ss. s = ps @ t @ ss)"
proof (induction s)
  case Nil
  then show ?case by auto
next
  case (Cons c cs)
  show ?case
  proof
    assume "string_includes (c # cs) t"
    then consider "take (length t) (c # cs) = t" | "string_includes cs t" by auto
    then show "\<exists>ps ss. c # cs = ps @ t @ ss"
    proof cases
      case 1
      then have "c # cs = [] @ t @ drop (length t) (c # cs)"
        by (metis append_Nil append_take_drop_id)
      then show ?thesis by blast
    next
      case 2
      then obtain ps ss where "cs = ps @ t @ ss" using Cons.IH by blast
      then have "c # cs = (c # ps) @ t @ ss" by simp
      then show ?thesis by blast
    qed
  next
    assume "\<exists>ps ss. c # cs = ps @ t @ ss"
    then obtain ps ss where eq: "c # cs = ps @ t @ ss" by blast
    show "string_includes (c # cs) t"
    proof (cases ps)
      case Nil
      with eq have "take (length t) (c # cs) = t" by simp
      then show ?thesis by simp
    next
      case (Cons p ps')
      with eq have "cs = ps' @ t @ ss" by simp
      then have "string_includes cs t" using Cons.IH by blast
      then show ?thesis by simp
    qed
  qed
qed

subsection \<open>The three dimensions\<close>

lemma license_dimension_None: "filter_licenseName fs = None \<Longrightarrow> license_dimension fs r"
  by (simp add: license_dimension_def license_condition_def logical_or_def
      optional_includes_def optional_length_def nullish_coalesce_def)

lemma license_dimension_Some:
  "filter_licenseName fs = Some l \<Longrightarrow>
   license_dimension fs r = (l = [] \<or> licenseName r \<in> set l \<or> ''all'' \<in> set l)"
  by (auto simp: license_dimension_def license_condition_def logical_or_def
      optional_includes_def optional_length_def nullish_coalesce_def)

lemma name_dimension_unset:
  "filter_repositoryName fs = None \<or> filter_repositoryName fs = Some [] \<Longrightarrow> name_dimension fs r"
  by (auto simp: name_dimension_def)

lemma collaborators_dimension_unset:
  "filter_collaboratorsCount fs = None \<Longrightarrow> collaborators_dimension fs r"
  by (simp add: collaborators_dimension_def)

lemmas filter_eval =
  filterRepos_def keeps_def name_dimension_def license_dimension_Some license_dimension_None
  collaborators_dimension_def element_at_def or_default_def repo_of_def initial_filters_def

text \<open>
  C1, as the specification states it: the license dimension keeps a record exactly when
  the list is empty and contains \<open>"all"\<close>, or contains the record's license; an empty
  list alone accepts nothing.  At the filter state of the mount, whose license list is
  empty, the source keeps a record with license \<open>MIT\<close>, and the stated rule rejects it:
  the condition \<open>length ?? (0 > 0)\<close> is the length itself, which is falsy at zero.
\<close>

theorem license_rule_empty_list_counterexample:
  "filter_licenseName initial_filters = Some [] \<and>
   license_dimension initial_filters (repo_of ''core-api'' ''MIT'' 3) \<and>
   \<not> stated_license_rule [] (repo_of ''core-api'' ''MIT'' 3)"
  by (simp add: stated_license_rule_def filter_eval)

text \<open>
  C1, amended: the license dimension keeps a record exactly when the license list is
  absent or empty, or contains the record's \<open>licenseName\<close>, or contains \<open>"all"\<close>.
\<close>

theorem license_dimension_keeps_iff:
  "license_dimension fs r \<longleftrightarrow>
     (case filter_licenseName fs of
        None \<Rightarrow> True
      | Some l \<Rightarrow> l = [] \<or> licenseName r \<in> set l \<or> ''all'' \<in> set l)"
  by (simp add: license_dimension_None license_dimension_Some split: option.split)

theorem license_dimension_keeps_iff_witness:
  "license_dimension (initial_filters\<lparr>filter_licenseName := Some [''GPL'', ''all'']\<rparr>)
     (repo_of ''widget'' ''MIT'' 1) \<and>
   \<not> license_dimension (initial_filters\<lparr>filter_licenseName := Some [''GPL'']\<rparr>)
     (repo_of ''widget'' ''MIT'' 1)"
  using license_dimension_keeps_iff
      [of "initial_filters\<lparr>filter_licenseName := Some [''GPL'', ''all'']\<rparr>"
          "repo_of ''widget'' ''MIT'' 1"]
    license_dimension_keeps_iff
      [of "initial_filters\<lparr>filter_licenseName := Some [''GPL'']\<rparr>"
          "repo_of ''widget'' ''MIT'' 1"]
  by (simp add: initial_filters_def repo_of_def)

text \<open>
  C4: when the license list contains \<open>"all"\<close> and the name and collaborator dimensions
  are unset, \<open>filterRepos\<close> returns the whole collection, whatever else the list
  contains.
\<close>

theorem all_sentinel_keeps_collection:
  assumes "filter_licenseName fs = Some l" and "''all'' \<in> set l"
    and "filter_repositoryName fs = None \<or> filter_repositoryName fs = Some []"
    and "filter_collaboratorsCount fs = None"
  shows "filterRepos fs C = C"
proof -
  have "keeps fs r" for r
    unfolding keeps_def
    using assms
    by (simp add: license_dimension_Some name_dimension_unset collaborators_dimension_unset)
  then show ?thesis by (simp add: filterRepos_def)
qed

theorem all_sentinel_keeps_collection_witness:
  "filterRepos
     \<lparr>filter_repositoryName = None, filter_licenseName = Some [''GPL'', ''all''],
      filter_collaboratorsCount = None\<rparr>
     [repo_of ''core-api'' ''MIT'' 3, repo_of ''widget'' ''GPL'' 0, repo_of ''corefront'' [] 7]
   = [repo_of ''core-api'' ''MIT'' 3, repo_of ''widget'' ''GPL'' 0, repo_of ''corefront'' [] 7]"
  by (rule all_sentinel_keeps_collection [where l = "[''GPL'', ''all'']"]) simp_all

text \<open>
  C8: with a non-empty name filter \<open>s\<close>, a record is kept by the name dimension exactly
  when its \<open>repositoryName\<close> contains \<open>s\<close> as a literal substring.  Filtering
  \<open>core-api\<close>, \<open>widget\<close>, \<open>corefront\<close> by \<open>core\<close> keeps the first and the third; no
  case is folded, so \<open>Core-API\<close> is not kept.
\<close>

theorem name_filter_literal_substring:
  "(s \<noteq> [] \<longrightarrow> filter_repositoryName fs = Some s \<longrightarrow>
      (name_dimension fs r \<longleftrightarrow> (\<exists>ps ss. repositoryName r = ps @ s @ ss))) \<and>
   map repositoryName
     (filterRepos (initial_filters\<lparr>filter_repositoryName := Some ''core''\<rparr>)
        [repo_of ''core-api'' ''MIT'' 1, repo_of ''widget'' ''MIT'' 1,
         repo_of ''corefront'' ''MIT'' 1])
     = [''core-api'', ''corefront''] \<and>
   filterRepos (initial_filters\<lparr>filter_repositoryName := Some ''core''\<rparr>)
     [repo_of ''Core-API'' ''MIT'' 1] = []"
proof (intro conjI impI)
  assume "s \<noteq> []" "filter_repositoryName fs = Some s"
  then show "name_dimension fs r \<longleftrightarrow> (\<exists>ps ss. repositoryName r = ps @ s @ ss)"
    by (simp add: name_dimension_def string_includes_iff)
next
  show "map repositoryName
     (filterRepos (initial_filters\<lparr>filter_repositoryName := Some ''core''\<rparr>)
        [repo_of ''core-api'' ''MIT'' 1, repo_of ''widget'' ''MIT'' 1,
         repo_of ''corefront'' ''MIT'' 1])
     = [''core-api'', ''corefront'']"
    by (simp add: filter_eval)
next
  show "filterRepos (initial_filters\<lparr>filter_repositoryName := Some ''core''\<rparr>)
     [repo_of ''Core-API'' ''MIT'' 1] = []"
    by (simp add: filter_eval)
qed

theorem name_filter_literal_substring_witness:
  "''core'' \<noteq> [] \<and>
   filter_repositoryName (initial_filters\<lparr>filter_repositoryName := Some ''core''\<rparr>) = Some ''core'' \<and>
   name_dimension (initial_filters\<lparr>filter_repositoryName := Some ''core''\<rparr>)
     (repo_of ''a-corefront'' ''MIT'' 1) \<and>
   (\<exists>ps ss. repositoryName (repo_of ''a-corefront'' ''MIT'' 1) = ps @ ''core'' @ ss)"
proof -
  let ?fs = "initial_filters\<lparr>filter_repositoryName := Some ''core''\<rparr>"
  let ?r = "repo_of ''a-corefront'' ''MIT'' 1"
  have a: "''core'' \<noteq> []" by simp
  have b: "filter_repositoryName ?fs = Some ''core''" by simp
  have c: "name_dimension ?fs ?r" by (simp add: filter_eval)
  from name_filter_literal_substring [of "''core''" ?fs ?r] a b c
  have "\<exists>ps ss. repositoryName ?r = ps @ ''core'' @ ss" by blast
  with a b c show ?thesis by blast
qed

text \<open>
  C9: without a \<open>collaboratorsCount\<close> entry the dimension imposes no constraint; with
  an entry \<open>[min, max]\<close> it keeps a record exactly when \<open>min \<le> count \<le> max\<close>, both
  bounds included, with \<open>0\<close> for an absent minimum and no upper bound for an absent
  maximum.  The range \<open>[5, 10]\<close> keeps \<open>5\<close>, \<open>7\<close>, \<open>10\<close> of \<open>3\<close>, \<open>5\<close>, \<open>7\<close>, \<open>10\<close>,
  \<open>12\<close>.
\<close>

theorem collaborator_range_inclusive:
  "(filter_collaboratorsCount fs = None \<longrightarrow> collaborators_dimension fs r) \<and>
   (filter_collaboratorsCount fs = Some [mn, mx] \<longrightarrow>
      (collaborators_dimension fs r \<longleftrightarrow>
         number_le (case mn of None \<Rightarrow> Num 0 | Some n \<Rightarrow> n)
                   (Num (of_int (collaboratorsCount r))) \<and>
         number_le (Num (of_int (collaboratorsCount r)))
                   (case mx of None \<Rightarrow> PosInfinity | Some n \<Rightarrow> n))) \<and>
   (filter_collaboratorsCount fs = Some [Some (Num lo), Some (Num hi)] \<longrightarrow>
      (collaborators_dimension fs r \<longleftrightarrow>
         lo \<le> of_int (collaboratorsCount r) \<and> of_int (collaboratorsCount r) \<le> hi)) \<and>
   (filter_collaboratorsCount fs = Some [None, Some (Num hi)] \<longrightarrow>
      (collaborators_dimension fs r \<longleftrightarrow>
         0 \<le> collaboratorsCount r \<and> of_int (collaboratorsCount r) \<le> hi)) \<and>
   (filter_collaboratorsCount fs = Some [Some (Num lo), None] \<longrightarrow>
      (collaborators_dimension fs r \<longleftrightarrow> lo \<le> of_int (collaboratorsCount r))) \<and>
   map collaboratorsCount
     (filterRepos (initial_filters\<lparr>filter_collaboratorsCount := Some [Some (Num 5), Some (Num 10)]\<rparr>)
        (map (repo_of ''r'' ''MIT'') [3, 5, 7, 10, 12]))
     = [5, 7, 10]"
  by (simp add: filter_eval)

theorem collaborator_range_inclusive_witness:
  "filter_collaboratorsCount
     (initial_filters\<lparr>filter_collaboratorsCount := Some [Some (Num 5), Some (Num 10)]\<rparr>)
     = Some [Some (Num 5), Some (Num 10)] \<and>
   collaborators_dimension
     (initial_filters\<lparr>filter_collaboratorsCount := Some [Some (Num 5), Some (Num 10)]\<rparr>)
     (repo_of ''r'' ''MIT'' 10) \<and>
   \<not> collaborators_dimension
     (initial_filters\<lparr>filter_collaboratorsCount := Some [Some (Num 5), Some (Num 10)]\<rparr>)
     (repo_of ''r'' ''MIT'' 12) \<and>
   collaborators_dimension initial_filters (repo_of ''r'' ''MIT'' 12)"
  using collaborator_range_inclusive
      [of "initial_filters\<lparr>filter_collaboratorsCount := Some [Some (Num 5), Some (Num 10)]\<rparr>"
          "repo_of ''r'' ''MIT'' 10" "Some (Num 5)" "Some (Num 10)" 5 10]
    collaborator_range_inclusive
      [of "initial_filters\<lparr>filter_collaboratorsCount := Some [Some (Num 5), Some (Num 10)]\<rparr>"
          "repo_of ''r'' ''MIT'' 12" "Some (Num 5)" "Some (Num 10)" 5 10]
    collaborator_range_inclusive
      [of initial_filters "repo_of ''r'' ''MIT'' 12" None None 0 0]
  by (simp add: initial_filters_def repo_of_def)

section \<open>Sorting with an empty SortState\<close>

text \<open>
  C3: with an empty SortState the collection comes back from \<open>sortRepos\<close> as it is, in
  its original order, and the rendered rows are the filter applied to it.
\<close>

theorem empty_sort_state_keeps_order:
  "sortRepos lc C [] C = Inr C \<and>
   rendered_rows lc C fs [] = Inr (filterRepos fs C)"
  by (simp add: sortRepos_def rendered_rows_def)

theorem empty_sort_state_keeps_order_witness:
  "rendered_rows code_unit_compare
     [repo_of ''widget'' ''MIT'' 3, repo_of ''core-api'' ''GPL'' 12, repo_of ''alpha'' ''MIT'' 7]
     (initial_filters\<lparr>filter_licenseName := Some [''MIT'']\<rparr>) []
   = Inr [repo_of ''widget'' ''MIT'' 3, repo_of ''alpha'' ''MIT'' 7]"
  using empty_sort_state_keeps_order
      [of code_unit_compare
          "[repo_of ''widget'' ''MIT'' 3, repo_of ''core-api'' ''GPL'' 12, repo_of ''alpha'' ''MIT'' 7]"
          "initial_filters\<lparr>filter_licenseName := Some [''MIT'']\<rparr>"]
  by (simp add: filter_eval)

text \<open>
  C10: with an empty SortState \<open>sortRepos\<close> returns the module's collection \<open>repos\<close>
  and not its argument; for an argument other than the collection, such as a filtered
  part of it, the result is the whole collection.
\<close>

theorem empty_sort_state_returns_global:
  "sortRepos lc repos [] inputRepos = Inr repos \<and>
   (inputRepos \<noteq> repos \<longrightarrow> sortRepos lc repos [] inputRepos \<noteq> Inr inputRepos)"
  by (simp add: sortRepos_def)

theorem empty_sort_state_returns_global_witness:
  "[repo_of ''widget'' ''MIT'' 3] \<noteq> [repo_of ''widget'' ''MIT'' 3, repo_of ''core-api'' ''GPL'' 12] \<and>
   sortRepos code_unit_compare
     [repo_of ''widget'' ''MIT'' 3, repo_of ''core-api'' ''GPL'' 12] []
     [repo_of ''widget'' ''MIT'' 3]
   = Inr [repo_of ''widget'' ''MIT'' 3, repo_of ''core-api'' ''GPL'' 12]"
  using empty_sort_state_returns_global
      [of code_unit_compare "[repo_of ''widget'' ''MIT'' 3, repo_of ''core-api'' ''GPL'' 12]"
          "[repo_of ''widget'' ''MIT'' 3]"]
  by simp

section \<open>The comparators\<close>

subsection \<open>The enumerated keys\<close>

lemma number_field_dom: "(number_field k \<noteq> None) = (k \<in> number_keys)"
  unfolding number_field_def number_keys_def
  by (simp only: map_of_eq_None_iff) (simp del: insert_iff)

lemma string_field_dom: "(string_field k \<noteq> None) = (k \<in> string_keys)"
  unfolding string_field_def string_keys_def
  by (simp only: map_of_eq_None_iff) (simp del: insert_iff)

lemma sortable_keys_fields:
  "k \<in> sortable_keys \<longleftrightarrow> number_field k \<noteq> None \<or> string_field k \<noteq> None"
  unfolding number_field_dom string_field_dom sortable_keys_def by (rule Un_iff)

lemma string_keys_number_field: "k \<in> string_keys \<Longrightarrow> number_field k = None"
  unfolding string_keys_def number_field_def by (elim insertE emptyE) simp_all

lemma getComparator_unsupported:
  "k \<notin> sortable_keys \<Longrightarrow> getComparator lc k = Inl (UnsupportedSortColumn k)"
  by (auto simp: sortable_keys_fields getComparator_def)

lemma getComparator_supported:
  "k \<in> sortable_keys \<Longrightarrow> getComparator lc k = Inr (spec_column_compare lc k)"
proof -
  assume "k \<in> sortable_keys"
  then consider f where "number_field k = Some f"
    | g where "number_field k = None" "string_field k = Some g"
    unfolding sortable_keys_fields by (cases "number_field k") auto
  then show ?thesis
  proof cases
    case 1
    have "(\<lambda>a b. if f a = f b then 0 else if f a > f b then 1 else - 1) = spec_column_compare lc k"
      by (intro ext) (simp add: spec_column_compare_def 1 sgn_if)
    then show ?thesis by (simp add: getComparator_def 1)
  next
    case 2
    have "(\<lambda>a b. lc (toLowerCase (g a)) (toLowerCase (g b))) = spec_column_compare lc k"
      by (intro ext) (simp add: spec_column_compare_def 2)
    then show ?thesis by (simp add: getComparator_def 2)
  qed
qed


subsection \<open>Case folding\<close>

lemma of_char_lower_char:
  "(of_char (lower_char c) :: nat) = (if is_upper c then of_char c + 32 else of_char c)"
proof (cases "is_upper c")
  case True
  then have "(of_char c :: nat) + 32 < 256" by (auto simp: is_upper_def)
  then have "(of_char (char_of ((of_char c :: nat) + 32)) :: nat) = of_char c + 32"
    by (simp only: of_char_of) simp
  with True show ?thesis by (simp add: lower_char_def)
next
  case False
  then show ?thesis by (simp add: lower_char_def)
qed

lemma lower_char_not_upper: "\<not> is_upper (lower_char c)"
  unfolding is_upper_def of_char_lower_char by (auto simp: is_upper_def)

lemma char_eq_iff_code_unit: "c = d \<longleftrightarrow> (of_char c :: nat) = of_char d"
  by simp

lemma lower_char_eq_iff: "lower_char c = lower_char d \<longleftrightarrow> case_variant c d"
proof -
  have "lower_char c = lower_char d \<longleftrightarrow> (of_char (lower_char c) :: nat) = of_char (lower_char d)"
    by simp
  also have "\<dots> \<longleftrightarrow> case_variant c d"
    unfolding of_char_lower_char case_variant_def upper_lower_pair_def
      char_eq_iff_code_unit [of c d] is_upper_def
    by (simp only: Un_iff atLeastAtMost_iff) presburger
  finally show ?thesis .
qed

lemma toLowerCase_eq_iff: "toLowerCase s = toLowerCase t \<longleftrightarrow> differ_only_in_case s t"
  unfolding toLowerCase_def differ_only_in_case_def
  by (simp add: list_eq_iff_nth_eq list_all2_conv_all_nth lower_char_eq_iff cong: conj_cong)

lemma differ_only_in_case_toLowerCase:
  "differ_only_in_case s t \<Longrightarrow> toLowerCase s = toLowerCase t"
  by (simp add: toLowerCase_eq_iff)

lemma toLowerCase_no_upper: "\<forall>c\<in>set (toLowerCase s). \<not> is_upper c"
  by (simp add: toLowerCase_def lower_char_not_upper)

lemma lower_char_idem: "lower_char (lower_char c) = lower_char c"
  using lower_char_not_upper [of c] unfolding lower_char_def [of "lower_char c"] by simp

lemma toLowerCase_idem: "toLowerCase (toLowerCase s) = toLowerCase s"
  by (simp add: toLowerCase_def lower_char_idem)

lemma differ_only_in_case_lowered: "differ_only_in_case s (toLowerCase s)"
  using toLowerCase_eq_iff [of s "toLowerCase s"] by (simp add: toLowerCase_idem)

lemmas fold_eval = toLowerCase_def lower_char_def is_upper_def char_of_eq_iff

subsection \<open>The callback of the sort\<close>

lemma compareRows_tied_prefix:
  "\<forall>p\<in>set pre. \<exists>cmp. getComparator lc (columnKey p) = Inr cmp \<and> cmp a b = 0 \<Longrightarrow>
   compareRows lc (pre @ rest) a b = compareRows lc rest a b"
  by (induction pre) auto

lemma compareRows_zero_iff:
  "compareRows lc ss a b = Inr 0 \<longleftrightarrow>
     (\<forall>p\<in>set ss. \<exists>cmp. getComparator lc (columnKey p) = Inr cmp \<and> cmp a b = 0)"
  by (induction ss) (auto simp: Let_def split: sum.splits)

lemma compareRows_supported:
  "\<forall>s\<in>set ss. columnKey s \<in> sortable_keys \<Longrightarrow>
   compareRows lc ss a b = Inr (spec_compare lc ss a b)"
proof (induction ss)
  case Nil
  then show ?case by simp
next
  case (Cons s ss)
  then have "getComparator lc (columnKey s) = Inr (spec_column_compare lc (columnKey s))"
    by (simp add: getComparator_supported)
  moreover have "compareRows lc ss a b = Inr (spec_compare lc ss a b)"
    using Cons by simp
  ultimately show ?case
    by (cases "direction s") (simp_all add: Let_def directed_def)
qed

subsection \<open>The sort\<close>

lemma insert_sorted_total:
  "\<forall>a b. comparefn a b = Inr (f a b) \<Longrightarrow>
   insert_sorted comparefn x ys = Inr (stable_insert f x ys)"
  by (induction ys) simp_all

lemma array_sort_total:
  "\<forall>a b. comparefn a b = Inr (f a b) \<Longrightarrow> array_sort comparefn xs = Inr (stable_sort f xs)"
  by (induction xs) (simp_all add: insert_sorted_total)

lemma insert_sorted_fails:
  "\<forall>a b. comparefn a b = Inl e \<Longrightarrow> ys \<noteq> [] \<Longrightarrow> insert_sorted comparefn x ys = Inl e"
  by (cases ys) simp_all


subsection \<open>Where an exception of the sort comes from\<close>







subsection \<open>What a sort that returns has compared\<close>





subsection \<open>The heap\<close>


section \<open>The sort contract\<close>




text \<open>
  C6: the callback walks the columns in the order of the SortState.  When every column
  before a column ties and that column's comparator gives a nonzero result, the
  callback returns that result, unchanged for \<open>ASC\<close> and negated for \<open>DESC\<close>; it
  returns \<open>0\<close> exactly when every column ties; and when the primary column ties, the
  result is the one of the remaining columns.
\<close>

theorem compareRows_first_nonzero_wins:
  "((\<forall>p\<in>set pre. \<exists>c. getComparator lc (columnKey p) = Inr c \<and> c a b = 0) \<longrightarrow>
      getComparator lc (columnKey s) = Inr cmp \<longrightarrow> cmp a b \<noteq> 0 \<longrightarrow>
      compareRows lc (pre @ s # post) a b
        = Inr (if direction s = ASC then cmp a b else - cmp a b)) \<and>
   (compareRows lc ss a b = Inr 0 \<longleftrightarrow>
      (\<forall>p\<in>set ss. \<exists>c. getComparator lc (columnKey p) = Inr c \<and> c a b = 0)) \<and>
   (getComparator lc (columnKey s) = Inr cmp \<longrightarrow> cmp a b = 0 \<longrightarrow>
      compareRows lc (s # post) a b = compareRows lc post a b)"
proof (intro conjI impI)
  assume "\<forall>p\<in>set pre. \<exists>c. getComparator lc (columnKey p) = Inr c \<and> c a b = 0"
    and "getComparator lc (columnKey s) = Inr cmp" and "cmp a b \<noteq> 0"
  then show "compareRows lc (pre @ s # post) a b
      = Inr (if direction s = ASC then cmp a b else - cmp a b)"
    by (simp add: compareRows_tied_prefix)
next
  show "compareRows lc ss a b = Inr 0 \<longleftrightarrow>
      (\<forall>p\<in>set ss. \<exists>c. getComparator lc (columnKey p) = Inr c \<and> c a b = 0)"
    by (rule compareRows_zero_iff)
next
  assume "getComparator lc (columnKey s) = Inr cmp" and "cmp a b = 0"
  then show "compareRows lc (s # post) a b = compareRows lc post a b"
    by simp
qed

theorem compareRows_first_nonzero_wins_witness:
  "(\<exists>c. getComparator code_unit_compare ''collaboratorsCount'' = Inr c \<and>
        c (repo_of ''alpha'' ''MIT'' 3) (repo_of ''core'' ''MIT'' 3) = 0) \<and>
   (\<exists>c. getComparator code_unit_compare ''repositoryName'' = Inr c \<and>
        c (repo_of ''alpha'' ''MIT'' 3) (repo_of ''core'' ''MIT'' 3) = - 1) \<and>
   compareRows code_unit_compare
     [\<lparr>columnKey = ''collaboratorsCount'', direction = ASC\<rparr>,
      \<lparr>columnKey = ''repositoryName'', direction = DESC\<rparr>]
     (repo_of ''alpha'' ''MIT'' 3) (repo_of ''core'' ''MIT'' 3) = Inr 1"
proof -
  let ?a = "repo_of ''alpha'' ''MIT'' 3" and ?b = "repo_of ''core'' ''MIT'' 3"
  let ?p = "\<lparr>columnKey = ''collaboratorsCount'', direction = ASC\<rparr>"
  let ?s = "\<lparr>columnKey = ''repositoryName'', direction = DESC\<rparr>"
  let ?c1 = "\<lambda>a b. if collaboratorsCount a = collaboratorsCount b then 0
                  else if collaboratorsCount a > collaboratorsCount b then 1 else - 1 :: int"
  let ?c2 = "\<lambda>a b. code_unit_compare (toLowerCase (repositoryName a))
                  (toLowerCase (repositoryName b))"
  have g1: "getComparator code_unit_compare ''collaboratorsCount'' = Inr ?c1"
    by (simp add: getComparator_def number_field_def)
  have g2: "getComparator code_unit_compare ''repositoryName'' = Inr ?c2"
    by (simp add: getComparator_def number_field_def string_field_def)
  have v1: "?c1 ?a ?b = 0" by (simp add: repo_of_def)
  have v2: "?c2 ?a ?b = - 1"
    by (simp add: repo_of_def fold_eval)
  have pre: "\<forall>p\<in>set [?p]. \<exists>c. getComparator code_unit_compare (columnKey p) = Inr c \<and> c ?a ?b = 0"
    using g1 v1 by simp
  from compareRows_first_nonzero_wins [of "[?p]" code_unit_compare ?a ?b ?s ?c2 "[]" "[]"]
    pre g2 v2
  have "compareRows code_unit_compare ([?p] @ ?s # []) ?a ?b = Inr 1" by simp
  with g1 g2 v1 v2 show ?thesis by simp
qed

lemma code_unit_compare_zero_iff: "code_unit_compare s t = 0 \<longleftrightarrow> s = t"
proof (induction s t rule: code_unit_compare.induct)
  case (4 c s d t)
  show ?case
  proof (cases "(of_char c :: nat) = of_char d")
    case True
    then have "c = d" by simp
    with 4 show ?thesis by simp
  next
    case False
    then have "c \<noteq> d" by simp
    with False show ?thesis by auto
  qed
qed simp_all

lemma string_column_comparator:
  assumes "(k, g) \<in> {(''licenseName'', licenseName), (''repoName'', repoName),
                     (''repositoryName'', repositoryName)}"
  shows "getComparator lc k = Inr (\<lambda>a b. lc (toLowerCase (g a)) (toLowerCase (g b)))"
  using assms
  by (elim insertE emptyE)
     (simp_all add: getComparator_def number_field_def string_field_def)

lemma not_upper_no_pair: "\<not> is_upper c \<Longrightarrow> \<not> upper_lower_pair c d"
  unfolding is_upper_def upper_lower_pair_def
  by (simp only: Un_iff atLeastAtMost_iff) presburger

text \<open>
  C7: for each of the three string keys the comparator is the collation applied to the
  lower-cased values of that very column.  Replacing either value by one that differs
  from it only in case leaves the result unchanged, and two values that differ only in
  case compare equal (a collation finds a string equal to itself); under a collation
  that tells any two different strings apart, only such values compare equal.  Lower-casing
  maps two strings to the same string exactly when they differ only in case, it changes
  nothing but the case, and its result has no upper-case letter.
\<close>

theorem string_comparator_ignores_case:
  assumes "(k, g) \<in> {(''licenseName'', licenseName), (''repoName'', repoName),
                     (''repositoryName'', repositoryName)}"
  shows "getComparator lc k = Inr (\<lambda>a b. lc (toLowerCase (g a)) (toLowerCase (g b))) \<and>
     (\<forall>cmp. getComparator lc k = Inr cmp \<longrightarrow>
        (\<forall>a a' b b'. differ_only_in_case (g a) (g a') \<longrightarrow> differ_only_in_case (g b) (g b') \<longrightarrow>
           cmp a b = cmp a' b') \<and>
        ((\<forall>x. lc x x = 0) \<longrightarrow> (\<forall>a b. differ_only_in_case (g a) (g b) \<longrightarrow> cmp a b = 0)) \<and>
        ((\<forall>x y. lc x y = 0 \<longleftrightarrow> x = y) \<longrightarrow>
           (\<forall>a b. cmp a b = 0 \<longleftrightarrow> differ_only_in_case (g a) (g b)))) \<and>
     (\<forall>s t. toLowerCase s = toLowerCase t \<longleftrightarrow> differ_only_in_case s t) \<and>
     (\<forall>s. differ_only_in_case s (toLowerCase s) \<and>
          (\<forall>c\<in>set (toLowerCase s). \<forall>d. \<not> upper_lower_pair c d)) \<and>
     toLowerCase ''Zebra-X_9'' = ''zebra-x_9'' \<and>
     toLowerCase [CHR 0xC9, CHR 0xD7, CHR 0xDE, CHR 0xDF, CHR 0xFF]
       = [CHR 0xE9, CHR 0xD7, CHR 0xFE, CHR 0xDF, CHR 0xFF]"
proof -
  let ?cmp = "\<lambda>a b. lc (toLowerCase (g a)) (toLowerCase (g b))"
  have get: "getComparator lc k = Inr ?cmp"
    using assms by (rule string_column_comparator)
  have every: "\<forall>cmp. getComparator lc k = Inr cmp \<longrightarrow>
        (\<forall>a a' b b'. differ_only_in_case (g a) (g a') \<longrightarrow> differ_only_in_case (g b) (g b') \<longrightarrow>
           cmp a b = cmp a' b') \<and>
        ((\<forall>x. lc x x = 0) \<longrightarrow> (\<forall>a b. differ_only_in_case (g a) (g b) \<longrightarrow> cmp a b = 0)) \<and>
        ((\<forall>x y. lc x y = 0 \<longleftrightarrow> x = y) \<longrightarrow>
           (\<forall>a b. cmp a b = 0 \<longleftrightarrow> differ_only_in_case (g a) (g b)))"
  proof (intro allI impI)
    fix cmp
    assume "getComparator lc k = Inr cmp"
    with get have c: "cmp = ?cmp" by simp
    show "(\<forall>a a' b b'. differ_only_in_case (g a) (g a') \<longrightarrow> differ_only_in_case (g b) (g b') \<longrightarrow>
           cmp a b = cmp a' b') \<and>
        ((\<forall>x. lc x x = 0) \<longrightarrow> (\<forall>a b. differ_only_in_case (g a) (g b) \<longrightarrow> cmp a b = 0)) \<and>
        ((\<forall>x y. lc x y = 0 \<longleftrightarrow> x = y) \<longrightarrow>
           (\<forall>a b. cmp a b = 0 \<longleftrightarrow> differ_only_in_case (g a) (g b)))"
      unfolding c
    proof (intro conjI allI impI)
      fix a a' b b'
      assume "differ_only_in_case (g a) (g a')" "differ_only_in_case (g b) (g b')"
      then show "lc (toLowerCase (g a)) (toLowerCase (g b))
          = lc (toLowerCase (g a')) (toLowerCase (g b'))"
        by (simp add: differ_only_in_case_toLowerCase)
    next
      fix a b
      assume "\<forall>x. lc x x = 0" "differ_only_in_case (g a) (g b)"
      then show "lc (toLowerCase (g a)) (toLowerCase (g b)) = 0"
        by (simp add: differ_only_in_case_toLowerCase)
    next
      fix a b
      assume "\<forall>x y. lc x y = 0 \<longleftrightarrow> x = y"
      then show "lc (toLowerCase (g a)) (toLowerCase (g b)) = 0
          \<longleftrightarrow> differ_only_in_case (g a) (g b)"
        by (simp add: toLowerCase_eq_iff)
    qed
  qed
  have fold: "\<forall>s t. toLowerCase s = toLowerCase t \<longleftrightarrow> differ_only_in_case s t"
    by (simp add: toLowerCase_eq_iff)
  have lowered: "\<forall>s. differ_only_in_case s (toLowerCase s) \<and>
      (\<forall>c\<in>set (toLowerCase s). \<forall>d. \<not> upper_lower_pair c d)"
  proof (intro allI conjI ballI)
    fix s show "differ_only_in_case s (toLowerCase s)" by (rule differ_only_in_case_lowered)
  next
    fix s c d assume "c \<in> set (toLowerCase s)"
    then have "\<not> is_upper c" using toLowerCase_no_upper [of s] by (rule_tac bspec)
    then show "\<not> upper_lower_pair c d" by (rule not_upper_no_pair)
  qed
  have ex1: "toLowerCase ''Zebra-X_9'' = ''zebra-x_9''"
    by (simp add: fold_eval)
  have ex2: "toLowerCase [CHR 0xC9, CHR 0xD7, CHR 0xDE, CHR 0xDF, CHR 0xFF]
       = [CHR 0xE9, CHR 0xD7, CHR 0xFE, CHR 0xDF, CHR 0xFF]"
    by (simp add: fold_eval)
  show ?thesis
    by (intro conjI) (rule get, rule every, rule fold, rule lowered, rule ex1, rule ex2)
qed

theorem string_comparator_ignores_case_witness:
  "differ_only_in_case ''Zebra'' ''zebra'' \<and> \<not> differ_only_in_case ''Zebra'' ''apple'' \<and>
   (\<exists>cmp. getComparator code_unit_compare ''repositoryName'' = Inr cmp \<and>
      cmp (repo_of ''Zebra'' ''MIT'' 1) (repo_of ''zebra'' ''MIT'' 1) = 0 \<and>
      cmp (repo_of ''Zebra'' ''MIT'' 1) (repo_of ''apple'' ''MIT'' 1) \<noteq> 0 \<and>
      cmp (repo_of ''Zebra'' ''MIT'' 1) (repo_of ''apple'' ''MIT'' 1)
        = cmp (repo_of ''zebra'' ''MIT'' 1) (repo_of ''apple'' ''MIT'' 1))"
proof -
  let ?Z = "repo_of ''Zebra'' ''MIT'' 1" and ?z = "repo_of ''zebra'' ''MIT'' 1"
    and ?a = "repo_of ''apple'' ''MIT'' 1"
  let ?cmp = "\<lambda>(a::Repo) (b::Repo). code_unit_compare (toLowerCase (repositoryName a))
      (toLowerCase (repositoryName b))"
  have k: "(''repositoryName'', repositoryName) \<in>
      {(''licenseName'', licenseName), (''repoName'', repoName),
       (''repositoryName'', repositoryName)}"
    by simp
  have d: "differ_only_in_case ''Zebra'' ''zebra''"
    by (simp add: differ_only_in_case_def case_variant_def upper_lower_pair_def)
  have d': "differ_only_in_case ''apple'' ''apple''"
    by (simp add: differ_only_in_case_def case_variant_def)
  have nd: "\<not> differ_only_in_case ''Zebra'' ''apple''"
    by (simp add: differ_only_in_case_def case_variant_def upper_lower_pair_def)
  have r: "\<forall>x. code_unit_compare x x = 0" by (simp add: code_unit_compare_zero_iff)
  have s: "\<forall>x y. code_unit_compare x y = 0 \<longleftrightarrow> x = y"
    by (simp add: code_unit_compare_zero_iff)
  note T = string_comparator_ignores_case [OF k, of code_unit_compare]
  from T have get: "getComparator code_unit_compare ''repositoryName'' = Inr ?cmp"
    by (rule conjunct1)
  from T have "\<forall>cmp. getComparator code_unit_compare ''repositoryName'' = Inr cmp \<longrightarrow>
        (\<forall>a a' b b'. differ_only_in_case (repositoryName a) (repositoryName a') \<longrightarrow>
           differ_only_in_case (repositoryName b) (repositoryName b') \<longrightarrow> cmp a b = cmp a' b') \<and>
        ((\<forall>x. code_unit_compare x x = 0) \<longrightarrow>
           (\<forall>a b. differ_only_in_case (repositoryName a) (repositoryName b) \<longrightarrow> cmp a b = 0)) \<and>
        ((\<forall>x y. code_unit_compare x y = 0 \<longleftrightarrow> x = y) \<longrightarrow>
           (\<forall>a b. cmp a b = 0 \<longleftrightarrow>
              differ_only_in_case (repositoryName a) (repositoryName b)))"
    by (elim conjE)
  from mp [OF spec [OF this] get]
  have props: "(\<forall>a a' b b'. differ_only_in_case (repositoryName a) (repositoryName a') \<longrightarrow>
           differ_only_in_case (repositoryName b) (repositoryName b') \<longrightarrow> ?cmp a b = ?cmp a' b') \<and>
        ((\<forall>x. code_unit_compare x x = 0) \<longrightarrow>
           (\<forall>a b. differ_only_in_case (repositoryName a) (repositoryName b) \<longrightarrow> ?cmp a b = 0)) \<and>
        ((\<forall>x y. code_unit_compare x y = 0 \<longleftrightarrow> x = y) \<longrightarrow>
           (\<forall>a b. ?cmp a b = 0 \<longleftrightarrow>
              differ_only_in_case (repositoryName a) (repositoryName b)))" .
  from props have inv: "\<forall>a a' b b'. differ_only_in_case (repositoryName a) (repositoryName a') \<longrightarrow>
        differ_only_in_case (repositoryName b) (repositoryName b') \<longrightarrow> ?cmp a b = ?cmp a' b'"
    by (rule conjunct1)
  from props have eq: "(\<forall>x. code_unit_compare x x = 0) \<longrightarrow>
        (\<forall>a b. differ_only_in_case (repositoryName a) (repositoryName b) \<longrightarrow> ?cmp a b = 0)"
    by (rule conjunct2 [THEN conjunct1])
  from props have sep: "(\<forall>x y. code_unit_compare x y = 0 \<longleftrightarrow> x = y) \<longrightarrow>
        (\<forall>a b. ?cmp a b = 0 \<longleftrightarrow> differ_only_in_case (repositoryName a) (repositoryName b))"
    by (rule conjunct2 [THEN conjunct2])
  have dZz: "differ_only_in_case (repositoryName ?Z) (repositoryName ?z)"
    using d by (simp add: repo_of_def)
  have daa: "differ_only_in_case (repositoryName ?a) (repositoryName ?a)"
    using d' by (simp add: repo_of_def)
  have nZa: "\<not> differ_only_in_case (repositoryName ?Z) (repositoryName ?a)"
    using nd by (simp add: repo_of_def)
  have 1: "?cmp ?Z ?z = 0"
    by (rule mp [OF eq r, rule_format, OF dZz])
  have "?cmp ?Z ?a = 0 \<longleftrightarrow> differ_only_in_case (repositoryName ?Z) (repositoryName ?a)"
    by (rule mp [OF sep s, rule_format])
  with nZa have 2: "?cmp ?Z ?a \<noteq> 0" by blast
  have 3: "?cmp ?Z ?a = ?cmp ?z ?a"
    by (rule inv [rule_format, OF dZz daa])
  from d nd get 1 2 3 show ?thesis by blast
qed

section \<open>Filtering and sorting commute\<close>

subsection \<open>Consistent comparators\<close>

lemma consistent_trans: "consistent_comparator f \<Longrightarrow> f a b \<le> 0 \<Longrightarrow> f b c \<le> 0 \<Longrightarrow> f a c \<le> 0"
  unfolding consistent_comparator_def by blast

lemma consistent_swap: "consistent_comparator f \<Longrightarrow> f a b < 0 \<longleftrightarrow> 0 < f b a"
  unfolding consistent_comparator_def by blast

lemma consistent_zero_swap: "consistent_comparator f \<Longrightarrow> f a b = 0 \<longleftrightarrow> f b a = 0"
  using consistent_swap [of f a b] consistent_swap [of f b a] by linarith

lemma consistent_le_swap: "consistent_comparator f \<Longrightarrow> f a b \<le> 0 \<longleftrightarrow> 0 \<le> f b a"
  using consistent_swap [of f a b] consistent_swap [of f b a] by linarith

lemma consistent_le_less:
  assumes "consistent_comparator f" "f a b \<le> 0" "f b c < 0"
  shows "f a c < 0"
proof (rule ccontr)
  assume "\<not> f a c < 0"
  then have "f c a \<le> 0" using consistent_le_swap [OF assms(1), of c a] by simp
  then have "f c b \<le> 0" using consistent_trans [OF assms(1) _ assms(2)] by blast
  then show False using consistent_swap [OF assms(1), of b c] assms(3) by simp
qed

lemma consistent_less_le:
  assumes "consistent_comparator f" "f a b < 0" "f b c \<le> 0"
  shows "f a c < 0"
proof (rule ccontr)
  assume "\<not> f a c < 0"
  then have "f c a \<le> 0" using consistent_le_swap [OF assms(1), of c a] by simp
  then have "f b a \<le> 0" using consistent_trans [OF assms(1) assms(3)] by blast
  then show False using consistent_swap [OF assms(1), of a b] assms(2) by simp
qed

lemma consistent_zero_zero:
  assumes "consistent_comparator f" "f a b = 0" "f b c = 0"
  shows "f a c = 0"
proof -
  have "f a c \<le> 0" using consistent_trans [OF assms(1), of a b c] assms by simp
  moreover have "f c b = 0" "f b a = 0"
    using assms consistent_zero_swap [OF assms(1)] by auto
  then have "f c a \<le> 0" using consistent_trans [OF assms(1), of c b a] by simp
  then have "0 \<le> f a c" using consistent_le_swap [OF assms(1), of c a] by simp
  ultimately show ?thesis by simp
qed

lemma consistent_const: "consistent_comparator (\<lambda>a b. 0)"
  by (simp add: consistent_comparator_def)

lemma consistent_on_key: "consistent_comparator f \<Longrightarrow> consistent_comparator (\<lambda>a b. f (k a) (k b))"
  unfolding consistent_comparator_def by blast

lemma consistent_sgn_diff: "consistent_comparator (\<lambda>a b. sgn (k a - k b :: int))"
  by (auto simp: consistent_comparator_def sgn_if)

lemma consistent_negate:
  assumes "consistent_comparator f" shows "consistent_comparator (\<lambda>a b. - f a b)"
  unfolding consistent_comparator_def
proof (intro conjI allI impI)
  fix a b show "(- f a b < 0) = (0 < - f b a)"
    using consistent_swap [OF assms, of b a] by simp
next
  fix a b c assume "- f a b \<le> 0" "- f b c \<le> 0"
  then have "f c b \<le> 0" "f b a \<le> 0"
    using consistent_le_swap [OF assms, of c b] consistent_le_swap [OF assms, of b a] by auto
  then have "f c a \<le> 0" by (rule consistent_trans [OF assms])
  then show "- f a c \<le> 0" using consistent_le_swap [OF assms, of c a] by simp
qed

lemma consistent_lexicographic:
  assumes f: "consistent_comparator f" and g: "consistent_comparator g"
  shows "consistent_comparator (\<lambda>a b. if f a b \<noteq> 0 then f a b else g a b)"
  unfolding consistent_comparator_def
proof (intro conjI allI impI)
  fix a b
  show "((if f a b \<noteq> 0 then f a b else g a b) < 0) = (0 < (if f b a \<noteq> 0 then f b a else g b a))"
    using consistent_swap [OF f, of a b] consistent_zero_swap [OF f, of a b]
      consistent_swap [OF g, of a b] by auto
next
  fix a b c
  assume ab: "(if f a b \<noteq> 0 then f a b else g a b) \<le> 0"
    and bc: "(if f b c \<noteq> 0 then f b c else g b c) \<le> 0"
  show "(if f a c \<noteq> 0 then f a c else g a c) \<le> 0"
  proof (cases "f a b = 0")
    case ab0: True
    show ?thesis
    proof (cases "f b c = 0")
      case True
      with ab0 have "f a c = 0" using consistent_zero_zero [OF f] by blast
      moreover have "g a c \<le> 0" using ab bc ab0 True consistent_trans [OF g, of a b c] by simp
      ultimately show ?thesis by simp
    next
      case False
      with bc have "f b c < 0" by simp
      with ab0 have "f a c < 0" using consistent_le_less [OF f, of a b c] by simp
      then show ?thesis by simp
    qed
  next
    case False
    with ab have ab': "f a b < 0" by simp
    have "f b c \<le> 0" using bc by (cases "f b c = 0") auto
    with ab' have "f a c < 0" using consistent_less_le [OF f, of a b c] by simp
    then show ?thesis by simp
  qed
qed

lemma consistent_spec_column:
  "consistent_comparator lc \<Longrightarrow> consistent_comparator (spec_column_compare lc k)"
proof -
  assume lc: "consistent_comparator lc"
  have eq: "spec_column_compare lc k =
     (case number_field k of
        Some f \<Rightarrow> (\<lambda>a b. sgn (f a - f b))
      | None \<Rightarrow>
         (case string_field k of
            Some g \<Rightarrow> (\<lambda>a b. lc (toLowerCase (g a)) (toLowerCase (g b)))
          | None \<Rightarrow> (\<lambda>a b. 0)))"
    by (intro ext) (simp add: spec_column_compare_def split: option.splits)
  show ?thesis
    unfolding eq
    by (auto split: option.splits
        intro: consistent_const consistent_sgn_diff consistent_on_key [OF lc])
qed

lemma consistent_directed:
  "consistent_comparator f \<Longrightarrow> consistent_comparator (\<lambda>a b. directed d (f a b))"
  by (cases d) (simp_all add: directed_def consistent_negate)

lemma consistent_spec_compare:
  "consistent_comparator lc \<Longrightarrow> consistent_comparator (spec_compare lc ss)"
proof (induction ss)
  case Nil
  have "spec_compare lc [] = (\<lambda>a b. 0)" by (intro ext) simp
  then show ?case by (simp add: consistent_const)
next
  case (Cons s ss)
  let ?h = "\<lambda>a b. directed (direction s) (spec_column_compare lc (columnKey s) a b)"
  have eq: "spec_compare lc (s # ss) = (\<lambda>a b. if ?h a b \<noteq> 0 then ?h a b else spec_compare lc ss a b)"
    by (intro ext) simp
  have "consistent_comparator ?h"
    by (intro consistent_directed consistent_spec_column Cons.prems)
  then show ?case
    unfolding eq using Cons.IH [OF Cons.prems] by (rule consistent_lexicographic)
qed

lemma consistent_total: "consistent_comparator f \<Longrightarrow> \<not> f a b \<le> 0 \<Longrightarrow> f b a \<le> 0"
  unfolding consistent_comparator_def by (metis less_le not_le)

lemma code_unit_compare_swap: "(code_unit_compare a b < 0) = (0 < code_unit_compare b a)"
  by (induction a b rule: code_unit_compare.induct) simp_all

lemma code_unit_compare_trans:
  "code_unit_compare a b \<le> 0 \<Longrightarrow> code_unit_compare b c \<le> 0 \<Longrightarrow> code_unit_compare a c \<le> 0"
proof (induction a b arbitrary: c rule: code_unit_compare.induct)
  case 1
  then show ?case by simp
next
  case (2 d t)
  then show ?case by (cases c) simp_all
next
  case (3 c s)
  then show ?case by simp
next
  case (4 x s y t)
  show ?case
  proof (cases c)
    case Nil
    with 4 show ?thesis by simp
  next
    case (Cons z u)
    have xy: "(of_char x :: nat) \<le> of_char y" using "4.prems"(1) by (simp split: if_splits)
    have yz: "(of_char y :: nat) \<le> of_char z" using "4.prems"(2) Cons by (simp split: if_splits)
    show ?thesis
    proof (cases "(of_char x :: nat) < of_char z")
      case True
      then show ?thesis using Cons by simp
    next
      case False
      with xy yz have "(of_char x :: nat) = of_char y" "(of_char y :: nat) = of_char z"
        by linarith+
      then have e: "x = y" "y = z" by simp_all
      then have "code_unit_compare s t \<le> 0" "code_unit_compare t u \<le> 0"
        using "4.prems" Cons by simp_all
      then have "code_unit_compare s u \<le> 0" using "4.IH" e by simp
      then show ?thesis using Cons e by simp
    qed
  qed
qed

lemma consistent_code_unit_compare: "consistent_comparator code_unit_compare"
  unfolding consistent_comparator_def
  using code_unit_compare_swap code_unit_compare_trans by blast

subsection \<open>A stable sort commutes with a filter\<close>

lemma set_stable_insert: "set (stable_insert f x ys) = insert x (set ys)"
  by (induction ys) auto

lemma sorted_stable_insert:
  "consistent_comparator f \<Longrightarrow> sorted_wrt (\<lambda>a b. f a b \<le> 0) ys \<Longrightarrow>
   sorted_wrt (\<lambda>a b. f a b \<le> 0) (stable_insert f x ys)"
proof (induction ys)
  case Nil
  then show ?case by simp
next
  case (Cons y ys)
  show ?case
  proof (cases "f x y \<le> 0")
    case True
    then have "\<forall>z\<in>set ys. f x z \<le> 0"
      using Cons.prems consistent_trans [of f x y] by auto
    with True Cons.prems show ?thesis by simp
  next
    case False
    then have "f y x \<le> 0" by (rule consistent_total [OF Cons.prems(1)])
    with False Cons show ?thesis by (auto simp: set_stable_insert)
  qed
qed

lemma sorted_stable_sort:
  "consistent_comparator f \<Longrightarrow> sorted_wrt (\<lambda>a b. f a b \<le> 0) (stable_sort f xs)"
  by (induction xs) (auto simp: sorted_stable_insert)

lemma stable_insert_front:
  "\<forall>y\<in>set ys. f x y \<le> 0 \<Longrightarrow> stable_insert f x ys = x # ys"
  by (cases ys) auto

lemma filter_stable_insert_drop:
  "\<not> P x \<Longrightarrow> filter P (stable_insert f x ys) = filter P ys"
  by (induction ys) auto

lemma filter_stable_insert_keep:
  "consistent_comparator f \<Longrightarrow> sorted_wrt (\<lambda>a b. f a b \<le> 0) ys \<Longrightarrow> P x \<Longrightarrow>
   filter P (stable_insert f x ys) = stable_insert f x (filter P ys)"
proof (induction ys)
  case Nil
  then show ?case by simp
next
  case (Cons y ys)
  show ?case
  proof (cases "f x y \<le> 0")
    case True
    then have "\<forall>z\<in>set ys. f x z \<le> 0"
      using Cons.prems consistent_trans [of f x y] by auto
    then have "stable_insert f x (filter P ys) = x # filter P ys"
      by (intro stable_insert_front) auto
    with True Cons.prems show ?thesis by simp
  next
    case False
    with Cons show ?thesis by auto
  qed
qed

lemma filter_stable_sort:
  "consistent_comparator f \<Longrightarrow> filter P (stable_sort f xs) = stable_sort f (filter P xs)"
  by (induction xs)
     (auto simp: filter_stable_insert_drop filter_stable_insert_keep sorted_stable_sort)

lemma find_unsupported_None:
  "\<forall>s\<in>set ss. columnKey s \<in> sortable_keys \<Longrightarrow>
   List.find (\<lambda>s. columnKey s \<notin> sortable_keys) ss = None"
  by (simp add: find_None_iff)

subsection \<open>The rendered rows\<close>

text \<open>
  C5, as the specification states it: for every collection, FilterState and SortState
  the rendered rows are the filtered collection, sorted.  With the key \<open>stars\<close>, which
  is not sortable, the two differ.  On a collection of one record the source never calls
  the callback and renders the record, where the sort of the specification fails.  On
  two records of which the filter keeps one, the source fails while sorting both, where
  sorting the one kept record with the source's own callback succeeds.
\<close>

theorem rows_unsupported_key_counterexample:
  "rendered_rows code_unit_compare [repo_of ''widget'' ''MIT'' 3] initial_filters
     [\<lparr>columnKey = ''stars'', direction = ASC\<rparr>]
     = Inr [repo_of ''widget'' ''MIT'' 3] \<and>
   spec_rows code_unit_compare [repo_of ''widget'' ''MIT'' 3] initial_filters
     [\<lparr>columnKey = ''stars'', direction = ASC\<rparr>]
     = Inl (UnsupportedSortColumn ''stars'') \<and>
   rendered_rows code_unit_compare
     [repo_of ''widget'' ''MIT'' 3, repo_of ''core-api'' ''GPL'' 12]
     (initial_filters\<lparr>filter_repositoryName := Some ''core''\<rparr>)
     [\<lparr>columnKey = ''stars'', direction = ASC\<rparr>]
     = Inl (UnsupportedSortColumn ''stars'') \<and>
   array_sort (compareRows code_unit_compare [\<lparr>columnKey = ''stars'', direction = ASC\<rparr>])
     (filterRepos (initial_filters\<lparr>filter_repositoryName := Some ''core''\<rparr>)
        [repo_of ''widget'' ''MIT'' 3, repo_of ''core-api'' ''GPL'' 12])
     = Inr [repo_of ''core-api'' ''GPL'' 12]"
proof -
  have k: "''stars'' \<notin> sortable_keys"
    by (simp add: sortable_keys_def number_keys_def string_keys_def)
  have g: "getComparator code_unit_compare ''stars'' = Inl (UnsupportedSortColumn ''stars'')"
    using k by (rule getComparator_unsupported)
  have 1: "rendered_rows code_unit_compare [repo_of ''widget'' ''MIT'' 3] initial_filters
     [\<lparr>columnKey = ''stars'', direction = ASC\<rparr>] = Inr [repo_of ''widget'' ''MIT'' 3]"
    by (simp add: rendered_rows_def sortRepos_def filter_eval)
  have 2: "spec_rows code_unit_compare [repo_of ''widget'' ''MIT'' 3] initial_filters
     [\<lparr>columnKey = ''stars'', direction = ASC\<rparr>] = Inl (UnsupportedSortColumn ''stars'')"
    using k by (simp add: spec_rows_def spec_sort_def)
  have 3: "rendered_rows code_unit_compare
     [repo_of ''widget'' ''MIT'' 3, repo_of ''core-api'' ''GPL'' 12]
     (initial_filters\<lparr>filter_repositoryName := Some ''core''\<rparr>)
     [\<lparr>columnKey = ''stars'', direction = ASC\<rparr>] = Inl (UnsupportedSortColumn ''stars'')"
    using g by (simp add: rendered_rows_def sortRepos_def)
  have 4: "array_sort (compareRows code_unit_compare [\<lparr>columnKey = ''stars'', direction = ASC\<rparr>])
     (filterRepos (initial_filters\<lparr>filter_repositoryName := Some ''core''\<rparr>)
        [repo_of ''widget'' ''MIT'' 3, repo_of ''core-api'' ''GPL'' 12])
     = Inr [repo_of ''core-api'' ''GPL'' 12]"
    by (simp add: filter_eval)
  from 1 2 3 4 show ?thesis by blast
qed

text \<open>
  C5, amended: when every column key of the SortState is a sortable key (and the
  collation is a consistent comparator), the rendered rows are the filtered collection
  sorted as the specification sorts, and for a non-empty SortState also the filtered
  collection sorted by the source's own callback.
\<close>

theorem rows_filter_then_sort:
  assumes "consistent_comparator lc" and "\<forall>s\<in>set ss. columnKey s \<in> sortable_keys"
  shows "rendered_rows lc repos fs ss = spec_rows lc repos fs ss \<and>
    (ss \<noteq> [] \<longrightarrow>
       rendered_rows lc repos fs ss = array_sort (compareRows lc ss) (filterRepos fs repos))"
proof (cases "ss = []")
  case True
  then show ?thesis
    by (simp add: rendered_rows_def sortRepos_def spec_rows_def spec_sort_def)
next
  case False
  let ?f = "spec_compare lc ss"
  have cb: "\<forall>a b. compareRows lc ss a b = Inr (?f a b)"
    using compareRows_supported [OF assms(2)] by simp
  have sorted: "array_sort (compareRows lc ss) xs = Inr (stable_sort ?f xs)" for xs
    using cb by (rule array_sort_total)
  have "rendered_rows lc repos fs ss = Inr (filterRepos fs (stable_sort ?f repos))"
    using False by (simp add: rendered_rows_def sortRepos_def sorted)
  also have "filterRepos fs (stable_sort ?f repos) = stable_sort ?f (filterRepos fs repos)"
    unfolding filterRepos_def
    by (rule filter_stable_sort [OF consistent_spec_compare [OF assms(1)]])
  finally have rows: "rendered_rows lc repos fs ss = Inr (stable_sort ?f (filterRepos fs repos))" .
  have "spec_rows lc repos fs ss = Inr (stable_sort ?f (filterRepos fs repos))"
    using False by (simp add: spec_rows_def spec_sort_def find_unsupported_None [OF assms(2)])
  with rows sorted show ?thesis by simp
qed

theorem rows_filter_then_sort_witness:
  "consistent_comparator code_unit_compare \<and>
   ''collaboratorsCount'' \<in> sortable_keys \<and> ''repositoryName'' \<in> sortable_keys \<and>
   spec_rows code_unit_compare
     [repo_of ''widget'' ''MIT'' 3, repo_of ''core-api'' ''GPL'' 12,
      repo_of ''Alpha'' ''MIT'' 3, repo_of ''beta'' ''MIT'' 7]
     (initial_filters\<lparr>filter_licenseName := Some [''MIT'']\<rparr>)
     [\<lparr>columnKey = ''collaboratorsCount'', direction = DESC\<rparr>,
      \<lparr>columnKey = ''repositoryName'', direction = ASC\<rparr>]
   = Inr [repo_of ''beta'' ''MIT'' 7, repo_of ''Alpha'' ''MIT'' 3, repo_of ''widget'' ''MIT'' 3]"
proof -
  let ?ss = "[\<lparr>columnKey = ''collaboratorsCount'', direction = DESC\<rparr>,
              \<lparr>columnKey = ''repositoryName'', direction = ASC\<rparr>]"
  let ?repos = "[repo_of ''widget'' ''MIT'' 3, repo_of ''core-api'' ''GPL'' 12,
      repo_of ''Alpha'' ''MIT'' 3, repo_of ''beta'' ''MIT'' 7]"
  let ?fs = "initial_filters\<lparr>filter_licenseName := Some [''MIT'']\<rparr>"
  have c: "consistent_comparator code_unit_compare" by (rule consistent_code_unit_compare)
  have k: "\<forall>s\<in>set ?ss. columnKey s \<in> sortable_keys"
    by (simp add: sortable_keys_def number_keys_def string_keys_def)
  have "rendered_rows code_unit_compare ?repos ?fs ?ss
      = Inr [repo_of ''beta'' ''MIT'' 7, repo_of ''Alpha'' ''MIT'' 3, repo_of ''widget'' ''MIT'' 3]"
    by (simp add: rendered_rows_def sortRepos_def getComparator_def number_field_def
        string_field_def fold_eval
        filter_eval)
  with rows_filter_then_sort [OF c k, of ?repos ?fs] c k show ?thesis by simp
qed

end
